theory Spec2Isabelle
  imports Main "HOL-Library.Word" "HOL-Library.Multiset"
begin

section \<open>The SQS poller of worker.go\<close>

text \<open>
  A shallow embedding of \<^verbatim>\<open>src/worker/worker.go\<close>. Every call that the Go code
  makes to a collaborator (the handler, the injected logger, the standard \<^verbatim>\<open>log\<close>
  package, the SQS client, the \<^verbatim>\<open>sync.WaitGroup\<close> and the \<^verbatim>\<open>go\<close> statement) is
  recorded, in program order, as an \<open>effect\<close>; a function of the source becomes a
  function that returns the effects it performs together with its result. The pointers
  that the code dereferences without a check (the message, the queue client, the handler,
  the logger of a configuration) are taken to be non-nil; the configuration pointer, which
  \<^verbatim>\<open>Start\<close> checks, may be nil.
\<close>

subsection \<open>Data of the AWS SDK\<close>

text \<open>
  A Go pointer \<^verbatim>\<open>*string\<close> or \<^verbatim>\<open>*int64\<close> is an \<open>option\<close>: \<open>None\<close> is \<^verbatim>\<open>nil\<close>.
  \<^verbatim>\<open>sqs.Message\<close> keeps the fields the worker can see.
\<close>

record Message =
  MessageId :: "string option"
  Body :: "string option"
  ReceiptHandle :: "string option"

record ReceiveMessageInput =
  rQueueUrl :: "string option"
  MaxNumberOfMessages :: "64 word option"
  MessageAttributeNames :: "string option list"
  WaitTimeSeconds :: "64 word option"

record ReceiveMessageOutput =
  Messages :: "Message list"

record DeleteMessageInput =
  dQueueUrl :: "string option"
  dReceiptHandle :: "string option"

definition aws_String :: "string \<Rightarrow> string option" where
  "aws_String v = Some v"

definition aws_Int64 :: "64 word \<Rightarrow> 64 word option" where
  "aws_Int64 v = Some v"

definition aws_StringValue :: "string option \<Rightarrow> string" where
  "aws_StringValue p = (case p of Some v \<Rightarrow> v | None \<Rightarrow> [])"

subsection \<open>Errors\<close>

text \<open>
  A non-nil Go \<^verbatim>\<open>error\<close> is an interface value: a dynamic type with a value of
  that type. The constructors of \<open>error\<close> are the dynamic types a handler or the SQS
  client can hand back: the struct \<^verbatim>\<open>InvalidEventError\<close> itself, a pointer to
  one (\<^verbatim>\<open>*InvalidEventError\<close> has the method \<^verbatim>\<open>Error\<close> too, so it is an
  \<^verbatim>\<open>error\<close>), the wrapper built by \<^verbatim>\<open>fmt.Errorf\<close> with \<^verbatim>\<open>%w\<close> (its text and
  the error it wraps), and the plain text error of \<^verbatim>\<open>errors.New\<close>. The nil error
  is \<open>None\<close> of \<open>error option\<close>.
\<close>

record InvalidEventError =
  event :: string
  msg :: string

datatype error =
    Dyn_InvalidEventError InvalidEventError
  | Dyn_Ptr_InvalidEventError InvalidEventError
  | Dyn_wrapError string error
  | Dyn_errorString string

definition InvalidEventError_Error :: "InvalidEventError \<Rightarrow> string" where
  "InvalidEventError_Error e = ''[Invalid Event: '' @ event e @ ''] '' @ msg e"

fun Error :: "error \<Rightarrow> string" where
  "Error (Dyn_InvalidEventError e) = InvalidEventError_Error e"
| "Error (Dyn_Ptr_InvalidEventError e) = InvalidEventError_Error e"
| "Error (Dyn_wrapError s _) = s"
| "Error (Dyn_errorString s) = s"

definition NewInvalidEventError :: "string \<Rightarrow> string \<Rightarrow> InvalidEventError" where
  "NewInvalidEventError ev m = \<lparr>event = ev, msg = m\<rparr>"

text \<open>
  The type assertion \<^verbatim>\<open>err.(InvalidEventError)\<close>: it yields \<^verbatim>\<open>ok\<close> exactly when
  the dynamic type of \<^verbatim>\<open>err\<close> is \<^verbatim>\<open>InvalidEventError\<close>; on nil it yields
  \<^verbatim>\<open>false\<close>.
\<close>

fun assert_InvalidEventError :: "error option \<Rightarrow> bool" where
  "assert_InvalidEventError (Some (Dyn_InvalidEventError _)) = True"
| "assert_InvalidEventError _ = False"

subsection \<open>Logger, configuration, handler, queue client\<close>

text \<open>
  Modelled from the spec: the interface \<^verbatim>\<open>LoggerIFace\<close> and the struct
  \<^verbatim>\<open>logger\<close> are declared in a file of the package that is not part of the
  sources at hand. The spec describes the logger as a sink with the methods Debug, Info
  and Error that return nothing, and \<^verbatim>\<open>&logger{}\<close> as the default logger. A value
  of \<open>LoggerIFace\<close> says which sink a configuration holds: \<open>Ptr_logger\<close> is
  \<^verbatim>\<open>&logger{}\<close>, \<open>Injected_logger k\<close> is the k-th logger of the embedding
  application. The \<^verbatim>\<open>Log\<close> field is taken to hold a logger.
\<close>

datatype LoggerIFace = Ptr_logger | Injected_logger nat

record Config =
  QueueURL :: string
  MaxNumberOfMessage :: "64 word"
  WaitTimeSecond :: "64 word"
  Log :: LoggerIFace

text \<open>
  \<^verbatim>\<open>HandlerFunc\<close> adapts a function to the interface \<^verbatim>\<open>Handler\<close>; the method
  \<^verbatim>\<open>HandleMessage\<close> applies it.
\<close>

datatype Handler = HandlerFunc "Message \<Rightarrow> error option"

fun HandleMessage :: "Handler \<Rightarrow> Message \<Rightarrow> error option" where
  "HandleMessage (HandlerFunc f) m = f m"

text \<open>
  The queue client \<^verbatim>\<open>*sqs.SQS\<close>, by the two methods the worker calls. What the
  remote queue answers to a receive changes from call to call, so \<open>ReceiveMessage\<close>
  takes the number of receive calls made before this one. The output of
  \<^verbatim>\<open>DeleteMessage\<close> is dropped by the worker; only its error is kept.
\<close>

record SQS =
  ReceiveMessage :: "nat \<Rightarrow> ReceiveMessageInput \<Rightarrow> ReceiveMessageOutput \<times> error option"
  DeleteMessage :: "DeleteMessageInput \<Rightarrow> error option"

subsection \<open>Effects\<close>

datatype effect =
    Call_HandleMessage Message
  | Log_Debug LoggerIFace string
  | Log_Info LoggerIFace string
  | Log_Error LoggerIFace string
  | Call_log_Println error
  | Call_ReceiveMessage ReceiveMessageInput
  | Call_DeleteMessage DeleteMessageInput
  | Call_wg_Add int
  | Go_func Message
  | Call_wg_Done
  | Return_wg_Wait

fun is_delete :: "effect \<Rightarrow> bool" where
  "is_delete (Call_DeleteMessage _) = True"
| "is_delete _ = False"

fun is_Log_Error :: "effect \<Rightarrow> bool" where
  "is_Log_Error (Log_Error _ _) = True"
| "is_Log_Error _ = False"

fun is_Log_Debug :: "effect \<Rightarrow> bool" where
  "is_Log_Debug (Log_Debug _ _) = True"
| "is_Log_Debug _ = False"

definition delete_calls :: "effect list \<Rightarrow> effect list" where
  "delete_calls tr = filter is_delete tr"

subsection \<open>Configuration defaults\<close>

definition DefaultConfigForQueueURL :: "string \<Rightarrow> Config" where
  "DefaultConfigForQueueURL url =
     \<lparr>QueueURL = url, MaxNumberOfMessage = 10, WaitTimeSecond = 20, Log = Ptr_logger\<rparr>"

text \<open>The initial value of the package variable \<^verbatim>\<open>DefaultConfig\<close>.\<close>

definition DefaultConfig :: Config where
  "DefaultConfig =
     \<lparr>QueueURL = [], MaxNumberOfMessage = 10, WaitTimeSecond = 20, Log = Ptr_logger\<rparr>"

subsection \<open>The message processor\<close>

text \<open>
  \<^verbatim>\<open>handleMessage\<close> returns the effects it performed and its error. The
  configuration is the struct its pointer argument refers to. The statements after the
  classification of the handler's error (the delete call and what follows it) are shared
  by two branches; \<open>delete_from_queue\<close> is that part, applied to the effects
  performed before it.
\<close>

definition delete_from_queue ::
  "Config \<Rightarrow> SQS \<Rightarrow> Message \<Rightarrow> effect list \<Rightarrow> effect list \<times> error option" where
  "delete_from_queue config svc m tr =
     (let params = \<lparr>dQueueUrl = aws_String (QueueURL config),
                     dReceiptHandle = ReceiptHandle m\<rparr>;
          err = DeleteMessage svc params;
          tr' = tr @ [Call_DeleteMessage params]
      in if err \<noteq> None then (tr', err)
         else (tr' @ [Log_Debug (Log config)
                        (''worker: deleted message from queue: ''
                           @ aws_StringValue (ReceiptHandle m))],
               None))"

definition handleMessage ::
  "Config \<Rightarrow> SQS \<Rightarrow> Message \<Rightarrow> Handler \<Rightarrow> effect list \<times> error option" where
  "handleMessage config svc m h =
     (let err = HandleMessage h m;
          tr = [Call_HandleMessage m]
      in if assert_InvalidEventError err then
           delete_from_queue config svc m
             (tr @ (case err of Some e \<Rightarrow> [Log_Error (Log config) (Error e)] | None \<Rightarrow> []))
         else if err \<noteq> None then (tr, err)
         else delete_from_queue config svc m tr)"

subsection \<open>The dispatcher\<close>

text \<open>
  \<^verbatim>\<open>fmt.Sprintf\<close> with \<^verbatim>\<open>%d\<close> prints the length of the batch in decimal.
\<close>

definition digit :: "nat \<Rightarrow> char" where
  "digit d = ''0123456789'' ! d"

fun Itoa :: "nat \<Rightarrow> string" where
  "Itoa n = (if n < 10 then [digit n] else Itoa (n div 10) @ [digit (n mod 10)])"

declare Itoa.simps [simp del]

text \<open>
  The function literal that \<^verbatim>\<open>run\<close> starts with \<^verbatim>\<open>go\<close> for one message: the
  effects of \<^verbatim>\<open>handleMessage\<close>, the error entry when it returns an error, and last
  the deferred \<^verbatim>\<open>wg.Done()\<close>.
\<close>

definition goroutine :: "Config \<Rightarrow> SQS \<Rightarrow> Handler \<Rightarrow> Message \<Rightarrow> effect list" where
  "goroutine config svc h m =
     (case handleMessage config svc m h of
        (tr, err) \<Rightarrow>
          tr @ (case err of Some e \<Rightarrow> [Log_Error (Log config) (Error e)] | None \<Rightarrow> [])
             @ [Call_wg_Done])"

text \<open>
  \<^verbatim>\<open>run\<close> is concurrent: the goroutine that executes \<^verbatim>\<open>run\<close> itself
  (\<open>Main\<close>) and the goroutines it has started (\<open>Goroutine k\<close> for the message at
  index \<open>k\<close>) take turns, one effect at a time, in an order that a scheduler chooses.
  The state of an execution of \<^verbatim>\<open>run\<close>: the counter of the WaitGroup, the loop index
  of \<^verbatim>\<open>for i := range messages\<close>, for each goroutine started the effects it has
  still to perform, whether \<^verbatim>\<open>wg.Wait()\<close> has returned, and the effects performed
  so far by all threads.
\<close>

datatype thread = Main | Goroutine nat

record run_state =
  wg :: int
  launched :: nat
  goroutines :: "effect list list"
  returned :: bool
  effects :: "effect list"

fun is_wg_Done :: "effect \<Rightarrow> bool" where
  "is_wg_Done Call_wg_Done = True"
| "is_wg_Done _ = False"

text \<open>
  The state after the info entry and \<^verbatim>\<open>wg.Add(numMessages)\<close>, which precede the
  first \<^verbatim>\<open>go\<close> statement.
\<close>

definition run_init :: "Config \<Rightarrow> Message list \<Rightarrow> run_state" where
  "run_init config messages =
     (let numMessages = length messages
      in \<lparr>wg = int numMessages, launched = 0, goroutines = [], returned = False,
          effects = [Log_Info (Log config)
                       (''worker: Received '' @ Itoa numMessages @ '' messages''),
                     Call_wg_Add (int numMessages)]\<rparr>)"

text \<open>
  A turn of the main thread: it starts the goroutine of the next message, or, after the
  loop, it returns from \<^verbatim>\<open>wg.Wait()\<close> if the counter is zero; while the counter is
  not zero it is blocked and the turn changes nothing. A turn of a goroutine performs its
  next effect; \<^verbatim>\<open>wg.Done()\<close> decrements the counter. A goroutine that has not been
  started, or has finished, does nothing.
\<close>

definition main_step ::
  "Config \<Rightarrow> SQS \<Rightarrow> Handler \<Rightarrow> Message list \<Rightarrow> run_state \<Rightarrow> run_state" where
  "main_step config svc h messages s =
     (if launched s < length messages then
        s\<lparr>launched := Suc (launched s),
          goroutines := goroutines s @ [goroutine config svc h (messages ! launched s)],
          effects := effects s @ [Go_func (messages ! launched s)]\<rparr>
      else if \<not> returned s \<and> wg s = 0 then
        s\<lparr>returned := True, effects := effects s @ [Return_wg_Wait]\<rparr>
      else s)"

definition goroutine_step :: "nat \<Rightarrow> run_state \<Rightarrow> run_state" where
  "goroutine_step k s =
     (if k < length (goroutines s) then
        (case goroutines s ! k of
           [] \<Rightarrow> s
         | e # rest \<Rightarrow>
             s\<lparr>wg := (if is_wg_Done e then wg s - 1 else wg s),
               goroutines := (goroutines s)[k := rest],
               effects := effects s @ [e]\<rparr>)
      else s)"

fun step ::
  "Config \<Rightarrow> SQS \<Rightarrow> Handler \<Rightarrow> Message list \<Rightarrow> thread \<Rightarrow> run_state \<Rightarrow> run_state" where
  "step config svc h messages Main s = main_step config svc h messages s"
| "step config svc h messages (Goroutine k) s = goroutine_step k s"

fun exec ::
  "Config \<Rightarrow> SQS \<Rightarrow> Handler \<Rightarrow> Message list \<Rightarrow> thread list \<Rightarrow> run_state \<Rightarrow> run_state" where
  "exec config svc h messages [] s = s"
| "exec config svc h messages (t # ts) s =
     exec config svc h messages ts (step config svc h messages t s)"

text \<open>The state reached from the start of \<^verbatim>\<open>run\<close> by the turns \<open>sched\<close>.\<close>

definition reach ::
  "Config \<Rightarrow> SQS \<Rightarrow> Handler \<Rightarrow> Message list \<Rightarrow> thread list \<Rightarrow> run_state" where
  "reach config svc h messages sched =
     exec config svc h messages sched (run_init config messages)"

text \<open>
  The scheduler is fair: after the turns it was asked for, every thread that can still
  move gets its turns. \<open>runnable\<close> picks a thread that can move, \<open>todo\<close> bounds the
  turns that remain, and \<open>finish\<close> gives turns until no thread can move.
\<close>

definition runnable :: "Message list \<Rightarrow> run_state \<Rightarrow> thread option" where
  "runnable messages s =
     (if launched s < length messages then Some Main
      else case find (\<lambda>k. goroutines s ! k \<noteq> []) [0..<length (goroutines s)] of
             Some k \<Rightarrow> Some (Goroutine k)
           | None \<Rightarrow> if \<not> returned s \<and> wg s = 0 then Some Main else None)"

definition todo :: "Config \<Rightarrow> SQS \<Rightarrow> Handler \<Rightarrow> Message list \<Rightarrow> run_state \<Rightarrow> nat" where
  "todo config svc h messages s =
     sum_list (map (\<lambda>m. Suc (length (goroutine config svc h m))) (drop (launched s) messages))
     + sum_list (map length (goroutines s))
     + (if returned s then 0 else 1)"

lemma sum_list_length_update:
  "k < length xs \<Longrightarrow> xs ! k = e # rest \<Longrightarrow>
     sum_list (map length xs) = Suc (sum_list (map length (xs[k := rest])))"
proof (induction xs arbitrary: k)
  case Nil
  then show ?case by simp
next
  case (Cons x xs)
  then show ?case by (cases k) auto
qed

lemma todo_step:
  assumes "runnable messages s = Some t"
  shows "todo config svc h messages (step config svc h messages t s) < todo config svc h messages s"
proof (cases "launched s < length messages")
  case True
  with assms have t: "t = Main" by (simp add: runnable_def)
  from True have "drop (launched s) messages = messages ! launched s # drop (Suc (launched s)) messages"
    by (simp add: Cons_nth_drop_Suc)
  with True t show ?thesis by (simp add: todo_def main_step_def)
next
  case False
  show ?thesis
  proof (cases "find (\<lambda>k. goroutines s ! k \<noteq> []) [0..<length (goroutines s)]")
    case None
    with False assms have "t = Main" "\<not> returned s" "wg s = 0"
      by (auto simp add: runnable_def split: if_splits)
    with False show ?thesis by (simp add: todo_def main_step_def)
  next
    case (Some k)
    with False assms have t: "t = Goroutine k" by (simp add: runnable_def)
    from Some have k: "k < length (goroutines s)" "goroutines s ! k \<noteq> []"
      by (auto simp add: find_Some_iff)
    then obtain e rest where er: "goroutines s ! k = e # rest" by (cases "goroutines s ! k") auto
    from sum_list_length_update [OF k(1) er] t k er show ?thesis
      by (simp add: todo_def goroutine_step_def)
  qed
qed

function finish ::
  "Config \<Rightarrow> SQS \<Rightarrow> Handler \<Rightarrow> Message list \<Rightarrow> run_state \<Rightarrow> run_state" where
  "finish config svc h messages s =
     (case runnable messages s of
        None \<Rightarrow> s
      | Some t \<Rightarrow> finish config svc h messages (step config svc h messages t s))"
  by pat_completeness auto
termination
  by (relation "measure (\<lambda>(config, svc, h, messages, s). todo config svc h messages s)")
     (simp_all add: todo_step)

text \<open>
  \<^verbatim>\<open>run\<close> under the schedule \<open>sched\<close>, continued fairly: the effects performed
  when \<^verbatim>\<open>wg.Wait()\<close> has returned, and \<open>None\<close> if it never returns.
\<close>

definition run ::
  "Config \<Rightarrow> SQS \<Rightarrow> Handler \<Rightarrow> Message list \<Rightarrow> thread list \<Rightarrow> effect list option" where
  "run config svc h messages sched =
     (let s = finish config svc h messages (reach config svc h messages sched)
      in if returned s then Some (effects s) else None)"

subsection \<open>The poller\<close>

text \<open>
  A \<^verbatim>\<open>*Config\<close> that is not nil is the address of the package variable
  \<^verbatim>\<open>DefaultConfig\<close> or of a configuration of the caller. The memory holds the
  current value of the package variable and the caller's configurations.
\<close>

datatype Config_ptr = Addr_DefaultConfig | Addr_Config nat

record memory =
  var_DefaultConfig :: Config
  heap :: "nat \<Rightarrow> Config"

fun deref :: "memory \<Rightarrow> Config_ptr \<Rightarrow> Config" where
  "deref mem Addr_DefaultConfig = var_DefaultConfig mem"
| "deref mem (Addr_Config a) = heap mem a"

text \<open>
  The frame of \<^verbatim>\<open>Start\<close>: its parameter \<^verbatim>\<open>config\<close>, the memory, the number
  of receive calls made so far and the effects performed so far. The parameters
  \<^verbatim>\<open>svc\<close> and \<^verbatim>\<open>h\<close> are never assigned and stay arguments.
\<close>

record Start_state =
  config_ptr :: "Config_ptr option"
  mem :: memory
  receives :: nat
  trace :: "effect list"

definition or_default :: "Config_ptr option \<Rightarrow> Config_ptr" where
  "or_default c = (case c of None \<Rightarrow> Addr_DefaultConfig | Some p \<Rightarrow> p)"

definition receive_params :: "Config \<Rightarrow> ReceiveMessageInput" where
  "receive_params c =
     \<lparr>rQueueUrl = aws_String (QueueURL c),
      MaxNumberOfMessages = aws_Int64 (MaxNumberOfMessage c),
      MessageAttributeNames = [aws_String ''All''],
      WaitTimeSeconds = aws_Int64 (WaitTimeSecond c)\<rparr>"

text \<open>
  One iteration of the loop of \<^verbatim>\<open>Start\<close>. \<open>sched k\<close> is the schedule of the
  goroutines for the batch of the receive call number \<open>k\<close>. The result is \<open>None\<close>
  when \<^verbatim>\<open>run\<close> does not return.
\<close>

definition Start_iteration ::
  "SQS \<Rightarrow> Handler \<Rightarrow> (nat \<Rightarrow> thread list) \<Rightarrow> Start_state \<Rightarrow> Start_state option" where
  "Start_iteration svc h sched st =
     (let p = or_default (config_ptr st);
          c = deref (mem st) p;
          params = receive_params c;
          (resp, err) = ReceiveMessage svc (receives st) params;
          st1 = st\<lparr>config_ptr := Some p,
                   receives := Suc (receives st),
                   trace := trace st @ [Log_Debug (Log c) ''worker: Start Polling'',
                                        Call_ReceiveMessage params]\<rparr>
      in case err of
           Some e \<Rightarrow> Some (st1\<lparr>trace := trace st1 @ [Call_log_Println e]\<rparr>)
         | None \<Rightarrow>
             if length (Messages resp) > 0
             then (case run c svc h (Messages resp) (sched (receives st)) of
                     None \<Rightarrow> None
                   | Some tr \<Rightarrow> Some (st1\<lparr>trace := trace st1 @ tr\<rparr>))
             else Some st1)"

text \<open>
  The loop has no exit. \<open>Start_iterations n\<close> is the state after \<open>n\<close> iterations;
  \<open>Start\<close> is the whole call, whose value \<open>None\<close> says that it does not return.
\<close>

fun Start_iterations ::
  "nat \<Rightarrow> SQS \<Rightarrow> Handler \<Rightarrow> (nat \<Rightarrow> thread list) \<Rightarrow> Start_state \<Rightarrow> Start_state option" where
  "Start_iterations 0 svc h sched st = Some st"
| "Start_iterations (Suc n) svc h sched st =
     (case Start_iteration svc h sched st of
        None \<Rightarrow> None
      | Some st' \<Rightarrow> Start_iterations n svc h sched st')"

partial_function (option) Start ::
  "SQS \<Rightarrow> Handler \<Rightarrow> (nat \<Rightarrow> thread list) \<Rightarrow> Start_state \<Rightarrow> unit option" where
  "Start svc h sched st =
     (case Start_iteration svc h sched st of
        None \<Rightarrow> None
      | Some st' \<Rightarrow> Start svc h sched st')"

text \<open>The frame at the entry of \<^verbatim>\<open>Start\<close>, for the argument \<open>arg\<close>.\<close>

definition Start_frame :: "memory \<Rightarrow> Config_ptr option \<Rightarrow> Start_state" where
  "Start_frame m arg = \<lparr>config_ptr = arg, mem = m, receives = 0, trace = []\<rparr>"

text \<open>
  Go passes arguments by value: the parameter \<^verbatim>\<open>config\<close> of \<^verbatim>\<open>Start\<close> is a
  variable of the callee that starts as a copy of the caller's pointer. A program state
  keeps the caller's variable beside the frame of \<^verbatim>\<open>Start\<close>; the body of
  \<^verbatim>\<open>Start\<close> has no access to the former.
\<close>

record program_state =
  caller_config :: "Config_ptr option"
  callee :: Start_state

definition call_Start :: "memory \<Rightarrow> Config_ptr option \<Rightarrow> program_state" where
  "call_Start m v = \<lparr>caller_config = v, callee = Start_frame m v\<rparr>"

definition program_iteration ::
  "SQS \<Rightarrow> Handler \<Rightarrow> (nat \<Rightarrow> thread list) \<Rightarrow> program_state \<Rightarrow> program_state option" where
  "program_iteration svc h sched ps =
     (case Start_iteration svc h sched (callee ps) of
        None \<Rightarrow> None
      | Some st' \<Rightarrow> Some (ps\<lparr>callee := st'\<rparr>))"

text \<open>
  Notions for the statements about an iteration: the configuration it reads, the state
  after its receive call, the effects it added, and whether these contain the
  \<^verbatim>\<open>wg.Add\<close> call that \<^verbatim>\<open>run\<close> makes each time it is entered.
\<close>

fun is_wg_Add :: "effect \<Rightarrow> bool" where
  "is_wg_Add (Call_wg_Add _) = True"
| "is_wg_Add _ = False"

definition dispatched :: "effect list \<Rightarrow> bool" where
  "dispatched tr = (filter is_wg_Add tr \<noteq> [])"

definition current_config :: "Start_state \<Rightarrow> Config" where
  "current_config st = deref (mem st) (or_default (config_ptr st))"

definition polled :: "Start_state \<Rightarrow> Start_state" where
  "polled st =
     st\<lparr>config_ptr := Some (or_default (config_ptr st)),
        receives := Suc (receives st),
        trace := trace st @ [Log_Debug (Log (current_config st)) ''worker: Start Polling'',
                             Call_ReceiveMessage (receive_params (current_config st))]\<rparr>"

definition new_effects :: "Start_state \<Rightarrow> Start_state \<Rightarrow> effect list" where
  "new_effects st st' = drop (length (trace st)) (trace st')"

subsection \<open>Invariants of the dispatcher\<close>

text \<open>
  What is left of a goroutine is empty or ends with its only \<^verbatim>\<open>wg.Done()\<close>. The
  counter of the WaitGroup counts the goroutines that are not yet started or not yet
  finished. The effects performed hold the launches made, one \<^verbatim>\<open>wg.Done()\<close> for
  each finished goroutine and no receive call; together with the effects still to come
  they are the effects of the whole execution.
\<close>

fun unit_effect :: "effect \<Rightarrow> bool" where
  "unit_effect (Call_HandleMessage _) = True"
| "unit_effect (Log_Error _ _) = True"
| "unit_effect (Log_Debug _ _) = True"
| "unit_effect (Call_DeleteMessage _) = True"
| "unit_effect _ = False"

definition body_shape :: "effect list \<Rightarrow> bool" where
  "body_shape u = (u = [] \<or> (last u = Call_wg_Done \<and> list_all unit_effect (butlast u)))"

definition unfinished :: "effect list list \<Rightarrow> nat" where
  "unfinished gs = length (filter (\<lambda>u. u \<noteq> []) gs)"

definition finished :: "effect list list \<Rightarrow> nat" where
  "finished gs = length (filter (\<lambda>u. u = []) gs)"

fun launches :: "effect list \<Rightarrow> Message list" where
  "launches [] = []"
| "launches (Go_func m # tr) = m # launches tr"
| "launches (e # tr) = launches tr"

definition run_inv :: "Message list \<Rightarrow> run_state \<Rightarrow> bool" where
  "run_inv messages s =
     (launched s \<le> length messages
      \<and> length (goroutines s) = launched s
      \<and> wg s = int (length messages - launched s) + int (unfinished (goroutines s))
      \<and> list_all body_shape (goroutines s)
      \<and> (if returned s then launched s = length messages \<and> unfinished (goroutines s) = 0
         else True))"

fun is_receive :: "effect \<Rightarrow> bool" where
  "is_receive (Call_ReceiveMessage _) = True"
| "is_receive _ = False"

definition trace_inv :: "Config \<Rightarrow> Message list \<Rightarrow> run_state \<Rightarrow> bool" where
  "trace_inv config messages s =
     (launches (effects s) = take (launched s) messages
      \<and> length (filter is_wg_Done (effects s)) = finished (goroutines s)
      \<and> take 2 (effects s) = effects (run_init config messages)
      \<and> filter is_receive (effects s) = []
      \<and> (if returned s then last (effects s) = Return_wg_Wait
         else Return_wg_Wait \<notin> set (effects s)))"

definition all_effects :: "Config \<Rightarrow> SQS \<Rightarrow> Handler \<Rightarrow> Message list \<Rightarrow> effect multiset" where
  "all_effects config svc h messages =
     mset (effects (run_init config messages))
     + mset (concat (map (\<lambda>m. Go_func m # goroutine config svc h m) messages))
     + {#Return_wg_Wait#}"

definition effects_inv :: "Config \<Rightarrow> SQS \<Rightarrow> Handler \<Rightarrow> Message list \<Rightarrow> run_state \<Rightarrow> bool" where
  "effects_inv config svc h messages s =
     (mset (effects s) + mset (concat (goroutines s))
      + mset (concat (map (\<lambda>m. Go_func m # goroutine config svc h m)
                        (drop (launched s) messages)))
      + (if returned s then {#} else {#Return_wg_Wait#})
      = all_effects config svc h messages)"

definition all_inv :: "Config \<Rightarrow> SQS \<Rightarrow> Handler \<Rightarrow> Message list \<Rightarrow> run_state \<Rightarrow> bool" where
  "all_inv config svc h messages s =
     (run_inv messages s \<and> trace_inv config messages s \<and> effects_inv config svc h messages s)"

subsection \<open>Concrete inputs\<close>

definition ex_config :: Config where
  "ex_config = DefaultConfigForQueueURL ''https://sqs.example/q1''"

definition ex_msg :: Message where
  "ex_msg = \<lparr>MessageId = Some ''m-1'', Body = Some ''payload'', ReceiptHandle = Some ''rh-1''\<rparr>"

definition ex_svc_ok :: SQS where
  "ex_svc_ok = \<lparr>ReceiveMessage = (\<lambda>k p. (\<lparr>Messages = []\<rparr>, None)),
                 DeleteMessage = (\<lambda>p. None)\<rparr>"

definition ex_svc_delete_fails :: SQS where
  "ex_svc_delete_fails =
     \<lparr>ReceiveMessage = (\<lambda>k p. (\<lparr>Messages = []\<rparr>, None)),
      DeleteMessage = (\<lambda>p. Some (Dyn_errorString ''ReceiptHandleIsInvalid''))\<rparr>"

definition ex_invalid :: InvalidEventError where
  "ex_invalid = NewInvalidEventError ''order.created'' ''missing id''"

definition ex_msg2 :: Message where
  "ex_msg2 = \<lparr>MessageId = Some ''m-2'', Body = Some ''other'', ReceiptHandle = Some ''rh-2''\<rparr>"

definition ex_mem :: memory where
  "ex_mem = \<lparr>var_DefaultConfig = DefaultConfig, heap = (\<lambda>_. ex_config)\<rparr>"

definition ex_svc_receive_fails :: SQS where
  "ex_svc_receive_fails =
     \<lparr>ReceiveMessage = (\<lambda>k p. (\<lparr>Messages = []\<rparr>, Some (Dyn_errorString ''RequestError''))),
      DeleteMessage = (\<lambda>p. None)\<rparr>"

definition ex_svc_two :: SQS where
  "ex_svc_two =
     \<lparr>ReceiveMessage = (\<lambda>k p. (\<lparr>Messages = (if k = 0 then [ex_msg, ex_msg2] else [])\<rparr>, None)),
      DeleteMessage = (\<lambda>p. None)\<rparr>"

definition ex_handler_ok :: Handler where
  "ex_handler_ok = HandlerFunc (\<lambda>_. None)"

definition ex_sched :: "nat \<Rightarrow> thread list" where
  "ex_sched k = [Main, Goroutine 0, Main, Goroutine 1, Goroutine 1, Goroutine 0]"

definition ex_sched_all :: "thread list" where
  "ex_sched_all =
     [Main, Goroutine 0, Main, Goroutine 1, Goroutine 1, Goroutine 0,
      Main, Goroutine 1, Goroutine 1, Goroutine 0, Goroutine 0, Main]"

section \<open>The dispatcher joins every goroutine\<close>

lemma is_wg_Done_iff: "is_wg_Done e = (e = Call_wg_Done)"
  by (cases e) simp_all

lemma handleMessage_unit_effects:
  "list_all unit_effect (fst (handleMessage config svc m h))"
  by (simp add: handleMessage_def delete_from_queue_def Let_def split: option.splits)

lemma goroutine_shape: "body_shape (goroutine config svc h m)"
proof (cases "handleMessage config svc m h")
  case (Pair tr err)
  with handleMessage_unit_effects [of config svc m h] have "list_all unit_effect tr" by simp
  with Pair show ?thesis
    by (cases err) (simp_all add: goroutine_def body_shape_def butlast_append)
qed

lemma goroutine_not_Nil: "goroutine config svc h m \<noteq> []"
  by (simp add: goroutine_def split: prod.splits)

lemma body_shape_Cons:
  assumes "body_shape (e # rest)"
  shows "is_wg_Done e = (rest = [])" and "body_shape rest" and "\<not> is_wg_Done e \<Longrightarrow> unit_effect e"
  using assms by (auto simp add: body_shape_def is_wg_Done_iff split: if_splits)

lemma unfinished_update_Nil:
  "k < length gs \<Longrightarrow> gs ! k \<noteq> [] \<Longrightarrow> unfinished gs = Suc (unfinished (gs[k := []]))"
  unfolding unfinished_def
proof (induction gs arbitrary: k)
  case Nil
  then show ?case by simp
next
  case (Cons g gs)
  then show ?case by (cases k) auto
qed

lemma unfinished_update_Cons:
  "k < length gs \<Longrightarrow> gs ! k \<noteq> [] \<Longrightarrow> rest \<noteq> [] \<Longrightarrow> unfinished (gs[k := rest]) = unfinished gs"
  unfolding unfinished_def
proof (induction gs arbitrary: k)
  case Nil
  then show ?case by simp
next
  case (Cons g gs)
  then show ?case by (cases k) auto
qed

lemma finished_unfinished: "finished gs + unfinished gs = length gs"
  unfolding finished_def unfinished_def
  by (induction gs) auto

lemma run_inv_init: "run_inv messages (run_init config messages)"
  by (simp add: run_inv_def run_init_def Let_def unfinished_def)

lemma run_inv_main_step:
  assumes "run_inv messages s"
  shows "run_inv messages (main_step config svc h messages s)"
proof (cases "launched s < length messages")
  case True
  with assms show ?thesis
    by (auto simp add: run_inv_def main_step_def unfinished_def goroutine_shape
        goroutine_not_Nil split: if_splits)
next
  case False
  with assms show ?thesis
    by (auto simp add: run_inv_def main_step_def split: if_splits)
qed

lemma run_inv_goroutine_step:
  assumes "run_inv messages s"
  shows "run_inv messages (goroutine_step k s)"
proof (cases "k < length (goroutines s)")
  case False
  with assms show ?thesis by (simp add: goroutine_step_def)
next
  case k: True
  show ?thesis
  proof (cases "goroutines s ! k")
    case Nil
    with k assms show ?thesis by (simp add: goroutine_step_def)
  next
    case (Cons e rest)
    from assms k have "body_shape (goroutines s ! k)"
      by (simp add: run_inv_def list_all_length)
    with Cons have sh: "body_shape (e # rest)" by simp
    note c = body_shape_Cons [OF sh]
    from assms have nr: "\<not> returned s"
      using k Cons unfinished_update_Nil [of k "goroutines s"]
      by (auto simp add: run_inv_def split: if_splits)
    have st: "goroutine_step k s =
        s\<lparr>wg := (if rest = [] then wg s - 1 else wg s),
          goroutines := (goroutines s)[k := rest],
          effects := effects s @ [e]\<rparr>"
      using k Cons c(1) by (simp add: goroutine_step_def)
    have shapes: "list_all body_shape ((goroutines s)[k := rest])"
      using assms c(2) k
      by (auto simp add: run_inv_def list_all_length nth_list_update)
    show ?thesis
    proof (cases "rest = []")
      case True
      from unfinished_update_Nil [of k "goroutines s"] k Cons
      have "unfinished (goroutines s) = Suc (unfinished ((goroutines s)[k := []]))" by simp
      with assms True st shapes nr show ?thesis
        by (simp add: run_inv_def)
    next
      case False
      from unfinished_update_Cons [of k "goroutines s" rest] k Cons False
      have "unfinished ((goroutines s)[k := rest]) = unfinished (goroutines s)" by simp
      with assms False st shapes nr show ?thesis
        by (simp add: run_inv_def)
    qed
  qed
qed

lemma run_inv_step:
  "run_inv messages s \<Longrightarrow> run_inv messages (step config svc h messages t s)"
  by (cases t) (simp_all add: run_inv_main_step run_inv_goroutine_step)

lemma run_inv_exec:
  "run_inv messages s \<Longrightarrow> run_inv messages (exec config svc h messages sched s)"
  by (induction sched arbitrary: s) (simp_all add: run_inv_step)

lemma run_inv_finish:
  "run_inv messages s \<Longrightarrow> run_inv messages (finish config svc h messages s)"
proof (induction config svc h messages s rule: finish.induct)
  case (1 config svc h messages s)
  show ?case
  proof (cases "runnable messages s")
    case None
    with 1 show ?thesis by simp
  next
    case (Some t)
    with 1 show ?thesis by (simp add: run_inv_step)
  qed
qed

lemma finish_not_runnable:
  "runnable messages (finish config svc h messages s) = None"
proof (induction config svc h messages s rule: finish.induct)
  case (1 config svc h messages s)
  show ?case
  proof (cases "runnable messages s")
    case None
    then show ?thesis by simp
  next
    case (Some t)
    with 1 show ?thesis by simp
  qed
qed

lemma not_runnable_returned:
  assumes "run_inv messages s" and "runnable messages s = None"
  shows "returned s"
proof (rule ccontr)
  assume nr: "\<not> returned s"
  from assms(2) have l: "\<not> launched s < length messages"
    by (auto simp add: runnable_def split: if_splits)
  with assms(2) have f: "find (\<lambda>k. goroutines s ! k \<noteq> []) [0..<length (goroutines s)] = None"
    by (auto simp add: runnable_def split: option.splits)
  then have "\<forall>k<length (goroutines s). goroutines s ! k = []"
    by (auto simp add: find_None_iff)
  then have "\<forall>u\<in>set (goroutines s). u = []"
    by (auto simp add: in_set_conv_nth)
  then have "unfinished (goroutines s) = 0"
    by (simp add: unfinished_def filter_empty_conv)
  with assms(1) l have "wg s = 0" by (simp add: run_inv_def)
  with assms(2) l f nr show False by (simp add: runnable_def)
qed

lemma run_returns: "\<exists>tr. run config svc h messages sched = Some tr"
proof -
  let ?s = "finish config svc h messages (reach config svc h messages sched)"
  have "run_inv messages ?s"
    unfolding reach_def by (intro run_inv_finish run_inv_exec run_inv_init)
  moreover have "runnable messages ?s = None" by (rule finish_not_runnable)
  ultimately have "returned ?s" by (rule not_runnable_returned)
  then show ?thesis by (simp add: run_def)
qed

lemma take_2_append:
  assumes "take 2 xs = i" and "length i = 2"
  shows "take 2 (xs @ ys) = i"
proof -
  from assms have "2 \<le> length xs" by (cases "2 \<le> length xs") auto
  with assms show ?thesis by simp
qed

lemma trace_inv_take_2:
  assumes "trace_inv config messages s"
  shows "take 2 (effects s @ ys) = effects (run_init config messages)"
  using assms by (intro take_2_append) (simp_all add: trace_inv_def run_init_def Let_def)

lemma init_effects_length: "length (effects (run_init config messages)) = 2"
  by (simp add: run_init_def Let_def)

lemma launches_append: "launches (a @ b) = launches a @ launches b"
  by (induction a rule: launches.induct) simp_all

lemma unit_effect_facts:
  assumes "unit_effect e \<or> is_wg_Done e"
  shows "launches [e] = []" and "\<not> is_receive e" and "e \<noteq> Return_wg_Wait"
  using assms by (cases e; simp)+

lemma finished_update_Nil:
  assumes "k < length gs" and "gs ! k \<noteq> []"
  shows "finished (gs[k := []]) = Suc (finished gs)"
  using unfinished_update_Nil [OF assms] finished_unfinished [of gs]
    finished_unfinished [of "gs[k := []]"]
  by simp

lemma finished_update_Cons:
  assumes "k < length gs" and "gs ! k \<noteq> []" and "rest \<noteq> []"
  shows "finished (gs[k := rest]) = finished gs"
  using unfinished_update_Cons [OF assms] finished_unfinished [of gs]
    finished_unfinished [of "gs[k := rest]"]
  by simp

lemma mset_concat_update:
  "k < length gs \<Longrightarrow> gs ! k = e # rest \<Longrightarrow>
     mset (concat (gs[k := rest])) + {#e#} = mset (concat gs)"
proof (induction gs arbitrary: k)
  case Nil
  then show ?case by simp
next
  case (Cons g gs)
  then show ?case by (cases k) auto
qed

text \<open>What a step of a goroutine is, in a state that satisfies the invariant.\<close>

lemma goroutine_step_cases:
  assumes "run_inv messages s"
  obtains (idle) "goroutine_step k s = s"
  | (act) e rest where "k < length (goroutines s)" and "goroutines s ! k = e # rest"
      and "\<not> returned s" and "is_wg_Done e = (rest = [])"
      and "unit_effect e \<or> is_wg_Done e"
      and "goroutine_step k s =
             s\<lparr>wg := (if rest = [] then wg s - 1 else wg s),
               goroutines := (goroutines s)[k := rest],
               effects := effects s @ [e]\<rparr>"
proof (cases "k < length (goroutines s)")
  case False
  then have "goroutine_step k s = s" by (simp add: goroutine_step_def)
  then show ?thesis by (rule idle)
next
  case k: True
  show ?thesis
  proof (cases "goroutines s ! k")
    case Nil
    with k have "goroutine_step k s = s" by (simp add: goroutine_step_def)
    then show ?thesis by (rule idle)
  next
    case (Cons e rest)
    from assms k have "body_shape (goroutines s ! k)"
      by (simp add: run_inv_def list_all_length)
    with Cons have sh: "body_shape (e # rest)" by simp
    note c = body_shape_Cons [OF sh]
    from assms have nr: "\<not> returned s"
      using k Cons unfinished_update_Nil [of k "goroutines s"]
      by (auto simp add: run_inv_def split: if_splits)
    have st: "goroutine_step k s =
        s\<lparr>wg := (if rest = [] then wg s - 1 else wg s),
          goroutines := (goroutines s)[k := rest],
          effects := effects s @ [e]\<rparr>"
      using k Cons c(1) by (simp add: goroutine_step_def)
    from c(3) have "unit_effect e \<or> is_wg_Done e" by blast
    from k Cons nr c(1) this st show ?thesis by (rule act)
  qed
qed

lemma main_step_cases:
  assumes "run_inv messages s"
  obtains (idle) "main_step config svc h messages s = s"
  | (launch) "launched s < length messages" and "\<not> returned s"
      and "main_step config svc h messages s =
             s\<lparr>launched := Suc (launched s),
               goroutines := goroutines s @ [goroutine config svc h (messages ! launched s)],
               effects := effects s @ [Go_func (messages ! launched s)]\<rparr>"
  | (wait) "launched s = length messages" and "\<not> returned s" and "wg s = 0"
      and "main_step config svc h messages s =
             s\<lparr>returned := True, effects := effects s @ [Return_wg_Wait]\<rparr>"
proof (cases "launched s < length messages")
  case True
  with assms have "\<not> returned s" by (auto simp add: run_inv_def split: if_splits)
  with True show ?thesis by (intro launch) (simp_all add: main_step_def)
next
  case False
  with assms have l: "launched s = length messages" by (simp add: run_inv_def)
  show ?thesis
  proof (cases "\<not> returned s \<and> wg s = 0")
    case True
    with l show ?thesis by (intro wait) (simp_all add: main_step_def)
  next
    case False
    with l show ?thesis by (intro idle) (auto simp add: main_step_def)
  qed
qed

lemma trace_inv_init: "trace_inv config messages (run_init config messages)"
  by (simp add: trace_inv_def run_init_def Let_def finished_def)

lemma trace_inv_main_step:
  assumes "run_inv messages s" and "trace_inv config messages s"
  shows "trace_inv config messages (main_step config svc h messages s)"
  using assms(1)
proof (cases rule: main_step_cases [where config = config and svc = svc and h = h])
  case idle
  with assms show ?thesis by simp
next
  case launch
  with assms show ?thesis
    by (simp add: trace_inv_def launches_append take_Suc_conv_app_nth finished_def
        goroutine_not_Nil trace_inv_take_2 [OF assms(2)] del: take_append)
next
  case wait
  with assms show ?thesis
    by (simp add: trace_inv_def launches_append trace_inv_take_2 [OF assms(2)] del: take_append)
qed

lemma trace_inv_goroutine_step:
  assumes "run_inv messages s" and "trace_inv config messages s"
  shows "trace_inv config messages (goroutine_step k s)"
  using assms(1)
proof (cases rule: goroutine_step_cases [where k = k])
  case idle
  with assms show ?thesis by simp
next
  case (act e rest)
  note u = unit_effect_facts [OF act(5)]
  show ?thesis
  proof (cases "rest = []")
    case True
    with act finished_update_Nil [of k "goroutines s"]
    have "finished ((goroutines s)[k := rest]) = Suc (finished (goroutines s))" by simp
    with assms(2) act True u show ?thesis
      by (simp add: trace_inv_def launches_append trace_inv_take_2 [OF assms(2)] del: take_append)
  next
    case False
    with act finished_update_Cons [of k "goroutines s" rest]
    have "finished ((goroutines s)[k := rest]) = finished (goroutines s)" by simp
    with assms(2) act False u show ?thesis
      by (simp add: trace_inv_def launches_append trace_inv_take_2 [OF assms(2)] del: take_append)
  qed
qed

lemma effects_inv_init: "effects_inv config svc h messages (run_init config messages)"
  by (simp add: effects_inv_def all_effects_def run_init_def Let_def)

lemma effects_inv_main_step:
  assumes "run_inv messages s" and "effects_inv config svc h messages s"
  shows "effects_inv config svc h messages (main_step config svc h messages s)"
  using assms(1)
proof (cases rule: main_step_cases [where config = config and svc = svc and h = h])
  case idle
  with assms show ?thesis by simp
next
  case launch
  from launch(1) have "drop (launched s) messages
      = messages ! launched s # drop (Suc (launched s)) messages"
    by (simp add: Cons_nth_drop_Suc)
  with assms(2) launch show ?thesis
    by (simp add: effects_inv_def ac_simps)
next
  case wait
  with assms show ?thesis by (simp add: effects_inv_def)
qed

lemma effects_inv_goroutine_step:
  assumes "run_inv messages s" and "effects_inv config svc h messages s"
  shows "effects_inv config svc h messages (goroutine_step k s)"
  using assms(1)
proof (cases rule: goroutine_step_cases [where k = k])
  case idle
  with assms show ?thesis by simp
next
  case (act e rest)
  from mset_concat_update [OF act(1) act(2)]
  have "mset (concat ((goroutines s)[k := rest])) + {#e#} = mset (concat (goroutines s))" .
  then have "mset (concat (goroutines s)) = add_mset e (mset (concat ((goroutines s)[k := rest])))"
    by simp
  with assms(2) act show ?thesis
    by (simp add: effects_inv_def)
qed

lemma all_inv_init: "all_inv config svc h messages (run_init config messages)"
  by (simp add: all_inv_def run_inv_init trace_inv_init effects_inv_init)

lemma all_inv_step:
  "all_inv config svc h messages s \<Longrightarrow> all_inv config svc h messages (step config svc h messages t s)"
  by (cases t)
     (simp_all add: all_inv_def run_inv_main_step run_inv_goroutine_step trace_inv_main_step
        trace_inv_goroutine_step effects_inv_main_step effects_inv_goroutine_step)

lemma all_inv_exec:
  "all_inv config svc h messages s \<Longrightarrow> all_inv config svc h messages (exec config svc h messages sched s)"
  by (induction sched arbitrary: s) (simp_all add: all_inv_step)

lemma all_inv_finish:
  "all_inv config svc h messages s \<Longrightarrow> all_inv config svc h messages (finish config svc h messages s)"
proof (induction config svc h messages s rule: finish.induct)
  case (1 config svc h messages s)
  show ?case
  proof (cases "runnable messages s")
    case None
    with 1 show ?thesis by simp
  next
    case (Some t)
    with 1 show ?thesis by (simp add: all_inv_step)
  qed
qed

lemma returned_facts:
  assumes "all_inv config svc h messages s" and "returned s"
  shows "launches (effects s) = messages"
    and "length (filter is_wg_Done (effects s)) = length messages"
    and "take 2 (effects s) = effects (run_init config messages)"
    and "filter is_receive (effects s) = []"
    and "last (effects s) = Return_wg_Wait"
    and "mset (effects s) = all_effects config svc h messages"
proof -
  from assms have r: "launched s = length messages" "unfinished (goroutines s) = 0"
    "length (goroutines s) = launched s"
    by (auto simp add: all_inv_def run_inv_def split: if_splits)
  with finished_unfinished [of "goroutines s"] have f: "finished (goroutines s) = length messages"
    by simp
  from r(2) have "\<forall>u\<in>set (goroutines s). u = []"
    by (simp add: unfinished_def filter_empty_conv)
  then have c: "concat (goroutines s) = []" by simp
  from assms r f show "launches (effects s) = messages"
    and "length (filter is_wg_Done (effects s)) = length messages"
    and "take 2 (effects s) = effects (run_init config messages)"
    and "filter is_receive (effects s) = []"
    and "last (effects s) = Return_wg_Wait"
    by (simp_all add: all_inv_def trace_inv_def)
  from assms r c show "mset (effects s) = all_effects config svc h messages"
    by (simp add: all_inv_def effects_inv_def)
qed

section \<open>The poller loop\<close>

lemma Start_not_Some:
  assumes "Start svc h sched st = Some u"
  shows False
  by (rule Start.raw_induct [where P = "\<lambda>_ _ _ _ _. False", OF _ assms])
     (auto split: option.splits)

lemma Start_never_returns: "Start svc h sched st = None"
  using Start_not_Some [of svc h sched st] by (cases "Start svc h sched st") auto

lemma run_facts:
  assumes "run config svc h messages sched = Some tr"
  shows "launches tr = messages"
    and "length (filter is_wg_Done tr) = length messages"
    and "take 2 tr = [Log_Info (Log config)
                        (''worker: Received '' @ Itoa (length messages) @ '' messages''),
                      Call_wg_Add (int (length messages))]"
    and "filter is_receive tr = []"
    and "last tr = Return_wg_Wait"
    and "mset tr = all_effects config svc h messages"
proof -
  let ?s = "finish config svc h messages (reach config svc h messages sched)"
  have inv: "all_inv config svc h messages ?s"
    unfolding reach_def by (intro all_inv_finish all_inv_exec all_inv_init)
  from assms have r: "returned ?s" and tr: "tr = effects ?s"
    by (auto simp add: run_def Let_def split: if_splits)
  note f = returned_facts [OF inv r]
  from f(1) tr show "launches tr = messages" by simp
  from f(2) tr show "length (filter is_wg_Done tr) = length messages" by simp
  from f(3) tr show "take 2 tr = [Log_Info (Log config)
                        (''worker: Received '' @ Itoa (length messages) @ '' messages''),
                      Call_wg_Add (int (length messages))]"
    by (simp add: run_init_def Let_def)
  from f(4) tr show "filter is_receive tr = []" by simp
  from f(5) tr show "last tr = Return_wg_Wait" by simp
  from f(6) tr show "mset tr = all_effects config svc h messages" by simp
qed

lemma run_dispatched:
  assumes "run config svc h messages sched = Some tr"
  shows "dispatched tr"
proof -
  from run_facts(3) [OF assms] obtain a rest where "tr = a # Call_wg_Add (int (length messages)) # rest"
    by (cases tr; cases "tl tr") (auto split: if_splits)
  then show ?thesis by (simp add: dispatched_def)
qed

lemma Start_iteration_error:
  assumes "snd (ReceiveMessage svc (receives st) (receive_params (current_config st))) = Some e"
  shows "Start_iteration svc h sched st =
           Some ((polled st)\<lparr>trace := trace (polled st) @ [Call_log_Println e]\<rparr>)"
  using assms
  by (cases "ReceiveMessage svc (receives st) (receive_params (current_config st))")
     (simp add: Start_iteration_def Let_def polled_def current_config_def)

lemma Start_iteration_empty:
  assumes "ReceiveMessage svc (receives st) (receive_params (current_config st)) = (resp, None)"
    and "Messages resp = []"
  shows "Start_iteration svc h sched st = Some (polled st)"
  using assms
  by (simp add: Start_iteration_def Let_def polled_def current_config_def)

lemma Start_iteration_messages:
  assumes "ReceiveMessage svc (receives st) (receive_params (current_config st)) = (resp, None)"
    and "Messages resp \<noteq> []"
  shows "\<exists>tr. run (current_config st) svc h (Messages resp) (sched (receives st)) = Some tr
           \<and> Start_iteration svc h sched st = Some ((polled st)\<lparr>trace := trace (polled st) @ tr\<rparr>)"
proof -
  from run_returns obtain tr
    where "run (current_config st) svc h (Messages resp) (sched (receives st)) = Some tr"
    by blast
  with assms show ?thesis
    by (simp add: Start_iteration_def Let_def polled_def current_config_def)
qed

lemma Start_iteration_begins:
  "\<exists>rest. Start_iteration svc h sched st = Some ((polled st)\<lparr>trace := trace (polled st) @ rest\<rparr>)"
proof (cases "ReceiveMessage svc (receives st) (receive_params (current_config st))")
  case (Pair resp err)
  show ?thesis
  proof (cases err)
    case (Some e)
    with Pair Start_iteration_error [of svc st e h sched] show ?thesis by auto
  next
    case None
    show ?thesis
    proof (cases "Messages resp = []")
      case True
      with Pair None Start_iteration_empty [of svc st resp h sched]
      have "Start_iteration svc h sched st = Some ((polled st)\<lparr>trace := trace (polled st) @ []\<rparr>)"
        by simp
      then show ?thesis by blast
    next
      case False
      with Pair None Start_iteration_messages [of svc st resp h sched] show ?thesis by auto
    qed
  qed
qed

lemma Start_iterations_total:
  "\<exists>st'. Start_iterations n svc h sched st = Some st'"
proof (induction n arbitrary: st)
  case 0
  then show ?case by simp
next
  case (Suc n)
  from Start_iteration_begins [of svc h sched st] obtain st1
    where "Start_iteration svc h sched st = Some st1" by blast
  with Suc [of st1] show ?case by simp
qed

lemma run_trace_shape:
  assumes "run config svc h messages sched = Some tr"
  shows "\<exists>rest. tr = [Log_Info (Log config)
                         (''worker: Received '' @ Itoa (length messages) @ '' messages''),
                       Call_wg_Add (int (length messages))] @ rest @ [Return_wg_Wait]"
proof -
  let ?a = "Log_Info (Log config) (''worker: Received '' @ Itoa (length messages) @ '' messages'')"
  let ?b = "Call_wg_Add (int (length messages))"
  note f = run_facts [OF assms]
  have "tr = take 2 tr @ drop 2 tr" by simp
  with f(3) have r: "tr = [?a, ?b] @ drop 2 tr" by simp
  have ne: "drop 2 tr \<noteq> []"
  proof
    assume "drop 2 tr = []"
    with r have "tr = [?a, ?b]" by simp
    then have "last tr = ?b" by simp
    with f(5) show False by simp
  qed
  from r have "last tr = last ([?a, ?b] @ drop 2 tr)" by simp
  also from ne have "\<dots> = last (drop 2 tr)" by (rule last_appendR)
  finally have "last (drop 2 tr) = Return_wg_Wait" using f(5) by simp
  with ne have "drop 2 tr = butlast (drop 2 tr) @ [Return_wg_Wait]"
    using append_butlast_last_id [OF ne] by simp
  with r have "tr = [?a, ?b] @ butlast (drop 2 tr) @ [Return_wg_Wait]" by simp
  then show ?thesis by (rule exI)
qed

lemma current_config_polled:
  "current_config ((polled st)\<lparr>trace := tr\<rparr>) = current_config st"
  by (simp add: current_config_def polled_def or_default_def)

lemma Start_iteration_keeps:
  assumes "Start_iteration svc h sched st = Some st'"
  shows "config_ptr st' = Some (or_default (config_ptr st))" and "mem st' = mem st"
    and "receives st' = Suc (receives st)"
proof -
  from Start_iteration_begins [of svc h sched st] assms obtain rest
    where "st' = (polled st)\<lparr>trace := trace (polled st) @ rest\<rparr>" by auto
  then show "config_ptr st' = Some (or_default (config_ptr st))" and "mem st' = mem st"
    and "receives st' = Suc (receives st)"
    by (simp_all add: polled_def)
qed

lemma Start_iterations_keep:
  assumes "Start_iterations (Suc n) svc h sched st = Some st'"
  shows "config_ptr st' = Some (or_default (config_ptr st)) \<and> mem st' = mem st"
  using assms
proof (induction n arbitrary: st)
  case 0
  then have "Start_iteration svc h sched st = Some st'"
    by (cases "Start_iteration svc h sched st") simp_all
  from Start_iteration_keeps [OF this] show ?case by simp
next
  case (Suc n)
  from Suc.prems obtain st1 where s1: "Start_iteration svc h sched st = Some st1"
    and rest: "Start_iterations (Suc n) svc h sched st1 = Some st'"
    by (cases "Start_iteration svc h sched st") simp_all
  from Suc.IH [OF rest] Start_iteration_keeps [OF s1] show ?case
    by (simp add: or_default_def)
qed

section \<open>Properties of the message processor\<close>

text \<open>
  C1. When the handler returns an error whose dynamic type is
  \<^verbatim>\<open>InvalidEventError\<close>, \<^verbatim>\<open>handleMessage\<close> calls the handler, logs the text of
  that error with the logger's \<^verbatim>\<open>Error\<close> method (once), issues one delete call and
  nothing else but the debug entry of a successful delete. What it returns is the outcome
  of the delete call: the handler's error is dropped and is not handed to the caller.
\<close>

theorem handleMessage_invalid_event_logged_and_deleted:
  assumes "HandleMessage h m = Some (Dyn_InvalidEventError e)"
  shows "fst (handleMessage config svc m h) =
           [Call_HandleMessage m,
            Log_Error (Log config) (Error (Dyn_InvalidEventError e)),
            Call_DeleteMessage
              \<lparr>dQueueUrl = Some (QueueURL config), dReceiptHandle = ReceiptHandle m\<rparr>]
           @ (if DeleteMessage svc
                   \<lparr>dQueueUrl = Some (QueueURL config), dReceiptHandle = ReceiptHandle m\<rparr> = None
              then [Log_Debug (Log config)
                      (''worker: deleted message from queue: ''
                         @ aws_StringValue (ReceiptHandle m))]
              else [])
       \<and> length (filter is_Log_Error (fst (handleMessage config svc m h))) = 1
       \<and> length (delete_calls (fst (handleMessage config svc m h))) = 1
       \<and> snd (handleMessage config svc m h) =
           DeleteMessage svc
             \<lparr>dQueueUrl = Some (QueueURL config), dReceiptHandle = ReceiptHandle m\<rparr>"
  using assms by (simp add: handleMessage_def delete_from_queue_def Let_def aws_String_def delete_calls_def)

theorem handleMessage_invalid_event_witness:
  "HandleMessage (HandlerFunc (\<lambda>_. Some (Dyn_InvalidEventError ex_invalid))) ex_msg
     = Some (Dyn_InvalidEventError ex_invalid)
   \<and> length (delete_calls (fst (handleMessage ex_config ex_svc_ok ex_msg
        (HandlerFunc (\<lambda>_. Some (Dyn_InvalidEventError ex_invalid)))))) = 1
   \<and> snd (handleMessage ex_config ex_svc_ok ex_msg
        (HandlerFunc (\<lambda>_. Some (Dyn_InvalidEventError ex_invalid)))) = None"
proof -
  have h: "HandleMessage (HandlerFunc (\<lambda>_. Some (Dyn_InvalidEventError ex_invalid))) ex_msg
             = Some (Dyn_InvalidEventError ex_invalid)"
    by simp
  have d: "DeleteMessage ex_svc_ok p = None" for p
    by (simp add: ex_svc_ok_def)
  show ?thesis
    using h handleMessage_invalid_event_logged_and_deleted
      [OF h, of ex_config ex_svc_ok, THEN conjunct2, THEN conjunct2]
    by (simp add: d)
qed

text \<open>
  C2. When the handler returns a non-nil error whose dynamic type is not
  \<^verbatim>\<open>InvalidEventError\<close>, \<^verbatim>\<open>handleMessage\<close> does nothing after the handler call:
  no delete call is issued, and the handler's error is returned as it is.
\<close>

theorem handleMessage_other_error_returned:
  assumes "HandleMessage h m = Some e" and "\<not> assert_InvalidEventError (Some e)"
  shows "handleMessage config svc m h = ([Call_HandleMessage m], Some e)
       \<and> delete_calls (fst (handleMessage config svc m h)) = []"
  using assms by (simp add: handleMessage_def delete_from_queue_def Let_def delete_calls_def)

theorem handleMessage_other_error_witness:
  "HandleMessage (HandlerFunc (\<lambda>_. Some (Dyn_errorString ''db down''))) ex_msg
     = Some (Dyn_errorString ''db down'')
   \<and> \<not> assert_InvalidEventError (Some (Dyn_errorString ''db down''))
   \<and> handleMessage ex_config ex_svc_ok ex_msg
        (HandlerFunc (\<lambda>_. Some (Dyn_errorString ''db down'')))
       = ([Call_HandleMessage ex_msg], Some (Dyn_errorString ''db down''))"
proof -
  have h: "HandleMessage (HandlerFunc (\<lambda>_. Some (Dyn_errorString ''db down''))) ex_msg
             = Some (Dyn_errorString ''db down'')"
    by simp
  have n: "\<not> assert_InvalidEventError (Some (Dyn_errorString ''db down''))"
    by simp
  show ?thesis
    using h n handleMessage_other_error_returned [OF h n, of ex_config ex_svc_ok]
    by (simp only: simp_thms)
qed

text \<open>
  C3. When the handler returns nil, \<^verbatim>\<open>handleMessage\<close> issues exactly one delete
  call, whose parameters are the configured queue URL and the receipt handle of the
  message. If that call returns no error, the effects end with a debug entry whose text
  ends with the receipt handle, and the result is nil.
\<close>

theorem handleMessage_success_deletes_once:
  assumes "HandleMessage h m = None"
  shows "delete_calls (fst (handleMessage config svc m h)) =
           [Call_DeleteMessage
              \<lparr>dQueueUrl = Some (QueueURL config), dReceiptHandle = ReceiptHandle m\<rparr>]
       \<and> (DeleteMessage svc
             \<lparr>dQueueUrl = Some (QueueURL config), dReceiptHandle = ReceiptHandle m\<rparr> = None \<longrightarrow>
            handleMessage config svc m h =
              ([Call_HandleMessage m,
                Call_DeleteMessage
                  \<lparr>dQueueUrl = Some (QueueURL config), dReceiptHandle = ReceiptHandle m\<rparr>,
                Log_Debug (Log config)
                  (''worker: deleted message from queue: ''
                     @ aws_StringValue (ReceiptHandle m))],
               None))"
  using assms by (simp add: handleMessage_def delete_from_queue_def Let_def aws_String_def delete_calls_def)

theorem handleMessage_success_witness:
  "HandleMessage (HandlerFunc (\<lambda>_. None)) ex_msg = None
   \<and> DeleteMessage ex_svc_ok
        \<lparr>dQueueUrl = Some (QueueURL ex_config), dReceiptHandle = ReceiptHandle ex_msg\<rparr> = None
   \<and> handleMessage ex_config ex_svc_ok ex_msg (HandlerFunc (\<lambda>_. None)) =
        ([Call_HandleMessage ex_msg,
          Call_DeleteMessage
            \<lparr>dQueueUrl = Some ''https://sqs.example/q1'', dReceiptHandle = Some ''rh-1''\<rparr>,
          Log_Debug Ptr_logger ''worker: deleted message from queue: rh-1''],
         None)"
proof -
  have h: "HandleMessage (HandlerFunc (\<lambda>_. None)) ex_msg = None"
    by simp
  have d: "DeleteMessage ex_svc_ok p = None" for p
    by (simp add: ex_svc_ok_def)
  have v: "QueueURL ex_config = ''https://sqs.example/q1''" "Log ex_config = Ptr_logger"
    "ReceiptHandle ex_msg = Some ''rh-1''"
    by (simp_all add: ex_config_def ex_msg_def DefaultConfigForQueueURL_def)
  show ?thesis
    using h handleMessage_success_deletes_once [OF h, of ex_config ex_svc_ok]
    by (simp add: d v aws_StringValue_def)
qed

text \<open>
  C4. On the deletion path (the handler returned nil, or an error of dynamic type
  \<^verbatim>\<open>InvalidEventError\<close>), when the delete call returns an error,
  \<^verbatim>\<open>handleMessage\<close> returns that error and writes no debug entry: the entry that
  reports the deletion is not emitted.
\<close>

theorem handleMessage_delete_error_returned:
  assumes "HandleMessage h m = None \<or> assert_InvalidEventError (HandleMessage h m)"
    and "DeleteMessage svc
           \<lparr>dQueueUrl = Some (QueueURL config), dReceiptHandle = ReceiptHandle m\<rparr> = Some d"
  shows "snd (handleMessage config svc m h) = Some d
       \<and> filter is_Log_Debug (fst (handleMessage config svc m h)) = []"
  using assms
  by (auto simp add: handleMessage_def delete_from_queue_def Let_def aws_String_def split: option.splits)

theorem handleMessage_delete_error_witness:
  "assert_InvalidEventError
     (HandleMessage (HandlerFunc (\<lambda>_. Some (Dyn_InvalidEventError ex_invalid))) ex_msg)
   \<and> DeleteMessage ex_svc_delete_fails
        \<lparr>dQueueUrl = Some (QueueURL ex_config), dReceiptHandle = ReceiptHandle ex_msg\<rparr>
       = Some (Dyn_errorString ''ReceiptHandleIsInvalid'')
   \<and> snd (handleMessage ex_config ex_svc_delete_fails ex_msg
        (HandlerFunc (\<lambda>_. Some (Dyn_InvalidEventError ex_invalid))))
       = Some (Dyn_errorString ''ReceiptHandleIsInvalid'')
   \<and> filter is_Log_Debug (fst (handleMessage ex_config ex_svc_delete_fails ex_msg
        (HandlerFunc (\<lambda>_. Some (Dyn_InvalidEventError ex_invalid))))) = []"
proof -
  have h: "HandleMessage (HandlerFunc (\<lambda>_. Some (Dyn_InvalidEventError ex_invalid))) ex_msg = None
         \<or> assert_InvalidEventError
             (HandleMessage (HandlerFunc (\<lambda>_. Some (Dyn_InvalidEventError ex_invalid))) ex_msg)"
    by simp
  have d: "DeleteMessage ex_svc_delete_fails p = Some (Dyn_errorString ''ReceiptHandleIsInvalid'')"
    for p
    by (simp add: ex_svc_delete_fails_def)
  show ?thesis
    using handleMessage_delete_error_returned [OF h d]
    by (simp add: d)
qed

text \<open>
  C10. The type assertion matches the struct type only. A handler error that is a
  pointer to an \<^verbatim>\<open>InvalidEventError\<close>, or an error that wraps one, takes the branch
  of the other errors: it is returned and no delete call is issued. The pointer prints
  the text of the struct, and so does a wrapper built from that text.
\<close>

theorem handleMessage_pointer_or_wrapper_not_recognised:
  assumes "HandleMessage h m = Some err"
    and "err = Dyn_Ptr_InvalidEventError e \<or> err = Dyn_wrapError s (Dyn_InvalidEventError e)"
  shows "handleMessage config svc m h = ([Call_HandleMessage m], Some err)
       \<and> delete_calls (fst (handleMessage config svc m h)) = []
       \<and> Error (Dyn_Ptr_InvalidEventError e) = Error (Dyn_InvalidEventError e)
       \<and> Error (Dyn_wrapError (Error (Dyn_InvalidEventError e)) (Dyn_InvalidEventError e))
           = Error (Dyn_InvalidEventError e)"
  using assms by (auto simp add: handleMessage_def delete_from_queue_def Let_def delete_calls_def)

theorem handleMessage_pointer_not_recognised_witness:
  "HandleMessage (HandlerFunc (\<lambda>_. Some (Dyn_Ptr_InvalidEventError ex_invalid))) ex_msg
     = Some (Dyn_Ptr_InvalidEventError ex_invalid)
   \<and> handleMessage ex_config ex_svc_ok ex_msg
        (HandlerFunc (\<lambda>_. Some (Dyn_Ptr_InvalidEventError ex_invalid)))
       = ([Call_HandleMessage ex_msg], Some (Dyn_Ptr_InvalidEventError ex_invalid))
   \<and> Error (Dyn_Ptr_InvalidEventError ex_invalid) = ''[Invalid Event: order.created] missing id''"
proof -
  have h: "HandleMessage (HandlerFunc (\<lambda>_. Some (Dyn_Ptr_InvalidEventError ex_invalid))) ex_msg
             = Some (Dyn_Ptr_InvalidEventError ex_invalid)"
    by simp
  have k: "Dyn_Ptr_InvalidEventError ex_invalid = Dyn_Ptr_InvalidEventError ex_invalid
         \<or> Dyn_Ptr_InvalidEventError ex_invalid = Dyn_wrapError [] (Dyn_InvalidEventError ex_invalid)"
    by simp
  have t: "Error (Dyn_InvalidEventError ex_invalid) = ''[Invalid Event: order.created] missing id''"
    by (simp add: ex_invalid_def NewInvalidEventError_def InvalidEventError_Error_def)
  show ?thesis
    using h handleMessage_pointer_or_wrapper_not_recognised [OF h k, of ex_config ex_svc_ok]
    by (simp only: t simp_thms)
qed

section \<open>Properties of the configuration defaults\<close>

text \<open>
  C9. For every url, \<^verbatim>\<open>DefaultConfigForQueueURL\<close> builds the configuration with
  that queue URL, at most 10 messages per receive, a wait of 20 seconds and the default
  logger \<^verbatim>\<open>&logger{}\<close>. The package variable \<^verbatim>\<open>DefaultConfig\<close> starts with the same
  values and the empty queue URL.
\<close>

theorem DefaultConfigForQueueURL_defaults:
  "QueueURL (DefaultConfigForQueueURL url) = url
   \<and> sint (MaxNumberOfMessage (DefaultConfigForQueueURL url)) = 10
   \<and> sint (WaitTimeSecond (DefaultConfigForQueueURL url)) = 20
   \<and> Log (DefaultConfigForQueueURL url) = Ptr_logger
   \<and> QueueURL DefaultConfig = []
   \<and> sint (MaxNumberOfMessage DefaultConfig) = 10
   \<and> sint (WaitTimeSecond DefaultConfig) = 20
   \<and> Log DefaultConfig = Ptr_logger
   \<and> DefaultConfig = DefaultConfigForQueueURL []"
  by (simp add: DefaultConfigForQueueURL_def DefaultConfig_def)

section \<open>Properties of the dispatcher\<close>

text \<open>
  C6. For every batch (of any size, so also for the sizes 0 to 10 that the queue can
  return) and every schedule, \<^verbatim>\<open>run\<close> returns; the goroutines it launched are one per
  message, in the order of the batch; the number of \<^verbatim>\<open>wg.Done()\<close> calls equals the
  number of goroutines launched; the effects performed up to the return are all the
  effects of all the goroutines, whatever their interleaving; nothing follows the return
  of \<^verbatim>\<open>wg.Wait()\<close>. After any sequence of scheduler choices the counter of the
  WaitGroup is the number of goroutines not yet launched or not yet finished; if
  \<^verbatim>\<open>wg.Wait()\<close> has returned, every message has its goroutine and every goroutine
  has finished; and \<^verbatim>\<open>wg.Wait()\<close> returns at the next turn of the main thread
  exactly when that is so.
\<close>

theorem run_joins_every_goroutine:
  "(\<exists>tr. run config svc h messages sched = Some tr
         \<and> launches tr = messages
         \<and> length (filter is_wg_Done tr) = length (launches tr)
         \<and> mset tr = all_effects config svc h messages
         \<and> last tr = Return_wg_Wait)
   \<and> wg (reach config svc h messages sched)
       = int (length messages - launched (reach config svc h messages sched))
         + int (unfinished (goroutines (reach config svc h messages sched)))
   \<and> (returned (reach config svc h messages sched) \<longrightarrow>
        launched (reach config svc h messages sched) = length messages
        \<and> unfinished (goroutines (reach config svc h messages sched)) = 0)
   \<and> returned (main_step config svc h messages (reach config svc h messages sched))
       = (launched (reach config svc h messages sched) = length messages
          \<and> unfinished (goroutines (reach config svc h messages sched)) = 0)"
proof -
  let ?s = "reach config svc h messages sched"
  from run_returns obtain tr where tr: "run config svc h messages sched = Some tr" by blast
  note f = run_facts [OF tr]
  have a: "\<exists>tr. run config svc h messages sched = Some tr
         \<and> launches tr = messages
         \<and> length (filter is_wg_Done tr) = length (launches tr)
         \<and> mset tr = all_effects config svc h messages
         \<and> last tr = Return_wg_Wait"
    using tr f by simp
  have inv: "run_inv messages ?s"
    unfolding reach_def by (intro run_inv_exec run_inv_init)
  then have b: "wg ?s = int (length messages - launched ?s) + int (unfinished (goroutines ?s))"
    by (simp add: run_inv_def)
  have c: "returned ?s \<longrightarrow> launched ?s = length messages \<and> unfinished (goroutines ?s) = 0"
    using inv by (simp add: run_inv_def split: if_splits)
  have d: "returned (main_step config svc h messages ?s)
        = (launched ?s = length messages \<and> unfinished (goroutines ?s) = 0)"
    using inv by (auto simp add: run_inv_def main_step_def split: if_splits)
  show ?thesis by (intro conjI) (rule a b c d)+
qed

theorem run_joins_witness:
  "returned (reach ex_config ex_svc_ok ex_handler_ok [ex_msg, ex_msg2] ex_sched_all)
   \<and> launched (reach ex_config ex_svc_ok ex_handler_ok [ex_msg, ex_msg2] ex_sched_all) = 2
   \<and> unfinished (goroutines
        (reach ex_config ex_svc_ok ex_handler_ok [ex_msg, ex_msg2] ex_sched_all)) = 0
   \<and> run ex_config ex_svc_ok ex_handler_ok [ex_msg, ex_msg2] ex_sched_all
       = Some [Log_Info Ptr_logger ''worker: Received 2 messages'', Call_wg_Add 2,
               Go_func ex_msg, Call_HandleMessage ex_msg, Go_func ex_msg2,
               Call_HandleMessage ex_msg2,
               Call_DeleteMessage
                 \<lparr>dQueueUrl = Some ''https://sqs.example/q1'', dReceiptHandle = Some ''rh-2''\<rparr>,
               Call_DeleteMessage
                 \<lparr>dQueueUrl = Some ''https://sqs.example/q1'', dReceiptHandle = Some ''rh-1''\<rparr>,
               Log_Debug Ptr_logger ''worker: deleted message from queue: rh-2'',
               Call_wg_Done,
               Log_Debug Ptr_logger ''worker: deleted message from queue: rh-1'',
               Call_wg_Done, Return_wg_Wait]"
proof -
  have r: "returned (reach ex_config ex_svc_ok ex_handler_ok [ex_msg, ex_msg2] ex_sched_all)"
    by code_simp
  have ev: "run ex_config ex_svc_ok ex_handler_ok [ex_msg, ex_msg2] ex_sched_all
       = Some [Log_Info Ptr_logger ''worker: Received 2 messages'', Call_wg_Add 2,
               Go_func ex_msg, Call_HandleMessage ex_msg, Go_func ex_msg2,
               Call_HandleMessage ex_msg2,
               Call_DeleteMessage
                 \<lparr>dQueueUrl = Some ''https://sqs.example/q1'', dReceiptHandle = Some ''rh-2''\<rparr>,
               Call_DeleteMessage
                 \<lparr>dQueueUrl = Some ''https://sqs.example/q1'', dReceiptHandle = Some ''rh-1''\<rparr>,
               Log_Debug Ptr_logger ''worker: deleted message from queue: rh-2'',
               Call_wg_Done,
               Log_Debug Ptr_logger ''worker: deleted message from queue: rh-1'',
               Call_wg_Done, Return_wg_Wait]"
    by code_simp
  note t = run_joins_every_goroutine
             [of ex_config ex_svc_ok ex_handler_ok "[ex_msg, ex_msg2]" ex_sched_all]
  from t have "returned (reach ex_config ex_svc_ok ex_handler_ok [ex_msg, ex_msg2] ex_sched_all)
      \<longrightarrow> launched (reach ex_config ex_svc_ok ex_handler_ok [ex_msg, ex_msg2] ex_sched_all)
            = length [ex_msg, ex_msg2]
        \<and> unfinished (goroutines
            (reach ex_config ex_svc_ok ex_handler_ok [ex_msg, ex_msg2] ex_sched_all)) = 0"
    by (elim conjE)
  with r have "launched (reach ex_config ex_svc_ok ex_handler_ok [ex_msg, ex_msg2] ex_sched_all) = 2"
    and "unfinished (goroutines
            (reach ex_config ex_svc_ok ex_handler_ok [ex_msg, ex_msg2] ex_sched_all)) = 0"
    by simp_all
  with r ev show ?thesis by (simp only: simp_thms)
qed

section \<open>Properties of the poller\<close>

text \<open>
  C5. When the receive call of an iteration returns an error, the iteration performs
  the debug entry, the receive call and one \<^verbatim>\<open>log.Println\<close> of that error, and
  nothing of the dispatcher. The loop goes on from the state so reached for any number
  of further iterations: the effects of the next iteration, the debug entry and the next
  receive call, follow the log entry at once. Every number of iterations completes, and
  \<^verbatim>\<open>Start\<close> never returns.
\<close>

theorem Start_receive_error_logged_and_retried:
  assumes "snd (ReceiveMessage svc (receives st) (receive_params (current_config st))) = Some e"
  shows "Start_iteration svc h sched st =
           Some ((polled st)\<lparr>trace := trace (polled st) @ [Call_log_Println e]\<rparr>)
       \<and> new_effects st ((polled st)\<lparr>trace := trace (polled st) @ [Call_log_Println e]\<rparr>) =
           [Log_Debug (Log (current_config st)) ''worker: Start Polling'',
            Call_ReceiveMessage (receive_params (current_config st)),
            Call_log_Println e]
       \<and> \<not> dispatched (new_effects st
             ((polled st)\<lparr>trace := trace (polled st) @ [Call_log_Println e]\<rparr>))
       \<and> Start_iterations (Suc n) svc h sched st =
           Start_iterations n svc h sched
             ((polled st)\<lparr>trace := trace (polled st) @ [Call_log_Println e]\<rparr>)
       \<and> (\<exists>rest. Start_iterations 2 svc h sched st =
             Some ((polled (polled st))
                    \<lparr>trace := trace st
                        @ [Log_Debug (Log (current_config st)) ''worker: Start Polling'',
                           Call_ReceiveMessage (receive_params (current_config st)),
                           Call_log_Println e,
                           Log_Debug (Log (current_config st)) ''worker: Start Polling'',
                           Call_ReceiveMessage (receive_params (current_config st))]
                        @ rest\<rparr>))
       \<and> (\<exists>st'. Start_iterations n svc h sched st = Some st')
       \<and> Start svc h sched st = None"
proof -
  let ?st1 = "(polled st)\<lparr>trace := trace (polled st) @ [Call_log_Println e]\<rparr>"
  note it = Start_iteration_error [OF assms, of h sched]
  have cc: "current_config ?st1 = current_config st"
    by (simp add: current_config_def polled_def or_default_def)
  from Start_iteration_begins [of svc h sched ?st1] obtain rest
    where r: "Start_iteration svc h sched ?st1 = Some ((polled ?st1)\<lparr>trace := trace (polled ?st1) @ rest\<rparr>)"
    by blast
  have two: "Start_iterations 2 svc h sched st = Some ((polled ?st1)\<lparr>trace := trace (polled ?st1) @ rest\<rparr>)"
    using it r by (simp add: numeral_2_eq_2)
  have eq: "(polled ?st1)\<lparr>trace := trace (polled ?st1) @ rest\<rparr> =
        (polled (polled st))\<lparr>trace := trace st
                        @ [Log_Debug (Log (current_config st)) ''worker: Start Polling'',
                           Call_ReceiveMessage (receive_params (current_config st)),
                           Call_log_Println e,
                           Log_Debug (Log (current_config st)) ''worker: Start Polling'',
                           Call_ReceiveMessage (receive_params (current_config st))]
                        @ rest\<rparr>"
    using cc by (simp add: polled_def or_default_def current_config_def)
  have a: "new_effects st ?st1 =
           [Log_Debug (Log (current_config st)) ''worker: Start Polling'',
            Call_ReceiveMessage (receive_params (current_config st)),
            Call_log_Println e]"
    by (simp add: new_effects_def polled_def)
  have b: "\<not> dispatched (new_effects st ?st1)"
    by (simp add: a dispatched_def)
  have c: "Start_iterations (Suc n) svc h sched st = Start_iterations n svc h sched ?st1"
    using it by simp
  from two eq have d: "\<exists>rest. Start_iterations 2 svc h sched st =
             Some ((polled (polled st))
                    \<lparr>trace := trace st
                        @ [Log_Debug (Log (current_config st)) ''worker: Start Polling'',
                           Call_ReceiveMessage (receive_params (current_config st)),
                           Call_log_Println e,
                           Log_Debug (Log (current_config st)) ''worker: Start Polling'',
                           Call_ReceiveMessage (receive_params (current_config st))]
                        @ rest\<rparr>)"
    by (intro exI [of _ rest]) (simp only:)
  note e = Start_iterations_total [of n svc h sched st]
  note f = Start_never_returns [of svc h sched st]
  show ?thesis
    by (intro conjI) (rule it a b c d e f)+
qed

theorem Start_receive_error_witness:
  "snd (ReceiveMessage ex_svc_receive_fails (receives (Start_frame ex_mem None))
          (receive_params (current_config (Start_frame ex_mem None))))
     = Some (Dyn_errorString ''RequestError'')
   \<and> Start_iteration ex_svc_receive_fails ex_handler_ok ex_sched (Start_frame ex_mem None) =
       Some \<lparr>config_ptr = Some Addr_DefaultConfig, mem = ex_mem, receives = 1,
             trace = [Log_Debug Ptr_logger ''worker: Start Polling'',
                      Call_ReceiveMessage
                        \<lparr>rQueueUrl = Some [], MaxNumberOfMessages = Some 10,
                          MessageAttributeNames = [Some ''All''], WaitTimeSeconds = Some 20\<rparr>,
                      Call_log_Println (Dyn_errorString ''RequestError'')]\<rparr>"
proof -
  have h: "snd (ReceiveMessage ex_svc_receive_fails (receives (Start_frame ex_mem None))
          (receive_params (current_config (Start_frame ex_mem None))))
     = Some (Dyn_errorString ''RequestError'')"
    by (simp add: ex_svc_receive_fails_def)
  have p: "(polled (Start_frame ex_mem None))
             \<lparr>trace := trace (polled (Start_frame ex_mem None))
                  @ [Call_log_Println (Dyn_errorString ''RequestError'')]\<rparr>
           = \<lparr>config_ptr = Some Addr_DefaultConfig, mem = ex_mem, receives = 1,
             trace = [Log_Debug Ptr_logger ''worker: Start Polling'',
                      Call_ReceiveMessage
                        \<lparr>rQueueUrl = Some [], MaxNumberOfMessages = Some 10,
                          MessageAttributeNames = [Some ''All''], WaitTimeSeconds = Some 20\<rparr>,
                      Call_log_Println (Dyn_errorString ''RequestError'')]\<rparr>"
    by (simp add: polled_def Start_frame_def current_config_def or_default_def ex_mem_def
        DefaultConfig_def receive_params_def aws_String_def aws_Int64_def)
  from Start_receive_error_logged_and_retried [OF h, of ex_handler_ok ex_sched, THEN conjunct1]
  have "Start_iteration ex_svc_receive_fails ex_handler_ok ex_sched (Start_frame ex_mem None) =
      Some ((polled (Start_frame ex_mem None))
             \<lparr>trace := trace (polled (Start_frame ex_mem None))
                  @ [Call_log_Println (Dyn_errorString ''RequestError'')]\<rparr>)" .
  with h p show ?thesis by (simp only: simp_thms)
qed

text \<open>
  C7. In every iteration the dispatcher runs exactly when the receive call returned no
  error and at least one message. With no error and no message the iteration ends after
  the receive call. With messages, the effects of \<^verbatim>\<open>run\<close> follow the receive call:
  they begin with the info entry that gives the number of messages and the
  \<^verbatim>\<open>wg.Add\<close> call, and end with the return of \<^verbatim>\<open>wg.Wait()\<close>; the iteration
  makes one receive call, and the receive call of the next iteration comes after the
  whole of them.
\<close>

theorem Start_dispatches_iff_messages_received:
  assumes "ReceiveMessage svc (receives st) (receive_params (current_config st)) = (resp, err)"
  shows "\<exists>st'. Start_iteration svc h sched st = Some st'
           \<and> dispatched (new_effects st st') = (err = None \<and> Messages resp \<noteq> [])
           \<and> filter is_receive (new_effects st st')
               = [Call_ReceiveMessage (receive_params (current_config st))]
           \<and> (err = None \<and> Messages resp = [] \<longrightarrow> st' = polled st)
           \<and> (err = None \<and> Messages resp \<noteq> [] \<longrightarrow>
                (\<exists>tr rest st'' more.
                    run (current_config st) svc h (Messages resp) (sched (receives st)) = Some tr
                  \<and> tr = [Log_Info (Log (current_config st))
                            (''worker: Received '' @ Itoa (length (Messages resp)) @ '' messages''),
                          Call_wg_Add (int (length (Messages resp)))] @ rest @ [Return_wg_Wait]
                  \<and> st' = (polled st)\<lparr>trace := trace (polled st) @ tr\<rparr>
                  \<and> Start_iteration svc h sched st' = Some st''
                  \<and> new_effects st st'' =
                      [Log_Debug (Log (current_config st)) ''worker: Start Polling'',
                       Call_ReceiveMessage (receive_params (current_config st))]
                      @ tr
                      @ [Log_Debug (Log (current_config st)) ''worker: Start Polling'',
                         Call_ReceiveMessage (receive_params (current_config st))]
                      @ more))"
proof -
  let ?D = "Log_Debug (Log (current_config st)) ''worker: Start Polling''"
  let ?R = "Call_ReceiveMessage (receive_params (current_config st))"
  let ?case2 = "\<lambda>st'. err = None \<and> Messages resp \<noteq> [] \<longrightarrow>
                (\<exists>tr rest st'' more.
                    run (current_config st) svc h (Messages resp) (sched (receives st)) = Some tr
                  \<and> tr = [Log_Info (Log (current_config st))
                            (''worker: Received '' @ Itoa (length (Messages resp)) @ '' messages''),
                          Call_wg_Add (int (length (Messages resp)))] @ rest @ [Return_wg_Wait]
                  \<and> st' = (polled st)\<lparr>trace := trace (polled st) @ tr\<rparr>
                  \<and> Start_iteration svc h sched st' = Some st''
                  \<and> new_effects st st'' = [?D, ?R] @ tr @ [?D, ?R] @ more)"
  show ?thesis
  proof (cases err)
    case (Some e)
    let ?st' = "(polled st)\<lparr>trace := trace (polled st) @ [Call_log_Println e]\<rparr>"
    from assms Some
    have "snd (ReceiveMessage svc (receives st) (receive_params (current_config st))) = Some e"
      by simp
    note a = Start_iteration_error [OF this, of h sched]
    have ne: "new_effects st ?st' = [?D, ?R, Call_log_Println e]"
      by (simp add: new_effects_def polled_def)
    have b: "dispatched (new_effects st ?st') = (err = None \<and> Messages resp \<noteq> [])"
      using Some by (simp add: ne dispatched_def)
    have c: "filter is_receive (new_effects st ?st') = [?R]"
      by (simp add: ne)
    have d: "err = None \<and> Messages resp = [] \<longrightarrow> ?st' = polled st"
      using Some by simp
    have e: "?case2 ?st'"
      using Some by simp
    show ?thesis
      by (intro exI [of _ ?st'] conjI) (rule a b c d e)+
  next
    case None
    show ?thesis
    proof (cases "Messages resp = []")
      case True
      let ?st' = "polled st"
      from assms None True have a: "Start_iteration svc h sched st = Some ?st'"
        by (intro Start_iteration_empty [of svc st resp]) simp_all
      have ne: "new_effects st ?st' = [?D, ?R]"
        by (simp add: new_effects_def polled_def)
      have b: "dispatched (new_effects st ?st') = (err = None \<and> Messages resp \<noteq> [])"
        using True by (simp add: ne dispatched_def)
      have c: "filter is_receive (new_effects st ?st') = [?R]"
        by (simp add: ne)
      have d: "err = None \<and> Messages resp = [] \<longrightarrow> ?st' = polled st"
        by simp
      have e: "?case2 ?st'"
        using True by simp
      show ?thesis
        by (intro exI [of _ ?st'] conjI) (rule a b c d e)+
    next
      case False
      from assms None have rm:
        "ReceiveMessage svc (receives st) (receive_params (current_config st)) = (resp, None)"
        by simp
      from Start_iteration_messages [OF rm False, of h sched] obtain tr
        where tr: "run (current_config st) svc h (Messages resp) (sched (receives st)) = Some tr"
          and a: "Start_iteration svc h sched st
                    = Some ((polled st)\<lparr>trace := trace (polled st) @ tr\<rparr>)"
        by blast
      let ?st' = "(polled st)\<lparr>trace := trace (polled st) @ tr\<rparr>"
      from run_trace_shape [OF tr] obtain rest
        where sh: "tr = [Log_Info (Log (current_config st))
                            (''worker: Received '' @ Itoa (length (Messages resp)) @ '' messages''),
                          Call_wg_Add (int (length (Messages resp)))] @ rest @ [Return_wg_Wait]"
        by blast
      have ne: "new_effects st ?st' = [?D, ?R] @ tr"
        by (simp add: new_effects_def polled_def)
      have "dispatched (new_effects st ?st')"
        using run_dispatched [OF tr] by (simp add: ne dispatched_def)
      with None False
      have b: "dispatched (new_effects st ?st') = (err = None \<and> Messages resp \<noteq> [])"
        by simp
      have c: "filter is_receive (new_effects st ?st') = [?R]"
        using run_facts(4) [OF tr] by (simp add: ne)
      have d: "err = None \<and> Messages resp = [] \<longrightarrow> ?st' = polled st"
        using False by simp
      from Start_iteration_begins [of svc h sched ?st'] obtain more
        where nx: "Start_iteration svc h sched ?st' =
                     Some ((polled ?st')\<lparr>trace := trace (polled ?st') @ more\<rparr>)"
        by blast
      let ?st'' = "(polled ?st')\<lparr>trace := trace (polled ?st') @ more\<rparr>"
      have cc: "current_config ?st' = current_config st"
        by (rule current_config_polled)
      have "trace (polled ?st') = trace st @ [?D, ?R] @ tr @ [?D, ?R]"
        by (simp add: polled_def [of ?st'] cc) (simp add: polled_def)
      then have ne2: "new_effects st ?st'' = [?D, ?R] @ tr @ [?D, ?R] @ more"
        by (simp add: new_effects_def)
      have "\<exists>tr' rest st'' more.
                    run (current_config st) svc h (Messages resp) (sched (receives st)) = Some tr'
                  \<and> tr' = [Log_Info (Log (current_config st))
                            (''worker: Received '' @ Itoa (length (Messages resp)) @ '' messages''),
                          Call_wg_Add (int (length (Messages resp)))] @ rest @ [Return_wg_Wait]
                  \<and> ?st' = (polled st)\<lparr>trace := trace (polled st) @ tr'\<rparr>
                  \<and> Start_iteration svc h sched ?st' = Some st''
                  \<and> new_effects st st'' = [?D, ?R] @ tr' @ [?D, ?R] @ more"
        by (intro exI [of _ tr] exI [of _ rest] exI [of _ ?st''] exI [of _ more] conjI)
           (rule tr sh refl nx ne2)+
      then have e: "?case2 ?st'" by (rule impI)
      show ?thesis
        by (intro exI [of _ ?st'] conjI) (rule a b c d e)+
    qed
  qed
qed

theorem Start_dispatch_witness:
  "ReceiveMessage ex_svc_two (receives (Start_frame ex_mem (Some (Addr_Config 0))))
       (receive_params (current_config (Start_frame ex_mem (Some (Addr_Config 0)))))
     = (\<lparr>Messages = [ex_msg, ex_msg2]\<rparr>, None)
   \<and> (\<exists>st'. Start_iteration ex_svc_two ex_handler_ok ex_sched
               (Start_frame ex_mem (Some (Addr_Config 0))) = Some st'
            \<and> dispatched (new_effects (Start_frame ex_mem (Some (Addr_Config 0))) st')
            \<and> filter is_receive (new_effects (Start_frame ex_mem (Some (Addr_Config 0))) st')
                = [Call_ReceiveMessage
                     \<lparr>rQueueUrl = Some ''https://sqs.example/q1'', MaxNumberOfMessages = Some 10,
                       MessageAttributeNames = [Some ''All''], WaitTimeSeconds = Some 20\<rparr>])"
proof -
  let ?st = "Start_frame ex_mem (Some (Addr_Config 0))"
  have h: "ReceiveMessage ex_svc_two (receives ?st) (receive_params (current_config ?st))
     = (\<lparr>Messages = [ex_msg, ex_msg2]\<rparr>, None)"
    by (simp add: ex_svc_two_def Start_frame_def)
  have p: "receive_params (current_config ?st) =
             \<lparr>rQueueUrl = Some ''https://sqs.example/q1'', MaxNumberOfMessages = Some 10,
               MessageAttributeNames = [Some ''All''], WaitTimeSeconds = Some 20\<rparr>"
    by (simp add: Start_frame_def current_config_def or_default_def ex_mem_def ex_config_def
        DefaultConfigForQueueURL_def receive_params_def aws_String_def aws_Int64_def)
  from Start_dispatches_iff_messages_received [OF h, of ex_handler_ok ex_sched]
  obtain st' where a: "Start_iteration ex_svc_two ex_handler_ok ex_sched ?st = Some st'"
    and b: "dispatched (new_effects ?st st') = (None = (None::error option) \<and> [ex_msg, ex_msg2] \<noteq> [])"
    and c: "filter is_receive (new_effects ?st st')
               = [Call_ReceiveMessage (receive_params (current_config ?st))]"
    by auto
  from b have b': "dispatched (new_effects ?st st')" by simp
  from c p have c': "filter is_receive (new_effects ?st st')
                = [Call_ReceiveMessage
                     \<lparr>rQueueUrl = Some ''https://sqs.example/q1'', MaxNumberOfMessages = Some 10,
                       MessageAttributeNames = [Some ''All''], WaitTimeSeconds = Some 20\<rparr>]"
    by simp
  from a b' c' have "\<exists>st'. Start_iteration ex_svc_two ex_handler_ok ex_sched ?st = Some st'
            \<and> dispatched (new_effects ?st st')
            \<and> filter is_receive (new_effects ?st st')
                = [Call_ReceiveMessage
                     \<lparr>rQueueUrl = Some ''https://sqs.example/q1'', MaxNumberOfMessages = Some 10,
                       MessageAttributeNames = [Some ''All''], WaitTimeSeconds = Some 20\<rparr>]"
    by blast
  with h show ?thesis by (rule conjI)
qed

text \<open>
  C8, as amended. When \<^verbatim>\<open>Start\<close> is called with a nil configuration, the first
  iteration sets the parameter of \<^verbatim>\<open>Start\<close> to the address of the package variable
  \<^verbatim>\<open>DefaultConfig\<close> and takes the logger and the receive parameters from that
  variable. The variable itself is not written, and the pointer variable of the caller
  stays nil. After any number of iterations the parameter still holds that address, so
  each iteration reads whatever the shared variable holds by then.
\<close>

theorem Start_nil_config_uses_DefaultConfig:
  "\<exists>ps' rest st_n.
       program_iteration svc h sched (call_Start m None) = Some ps'
     \<and> trace (callee ps') =
         [Log_Debug (Log (var_DefaultConfig m)) ''worker: Start Polling'',
          Call_ReceiveMessage (receive_params (var_DefaultConfig m))] @ rest
     \<and> config_ptr (callee ps') = Some Addr_DefaultConfig
     \<and> caller_config ps' = None
     \<and> mem (callee ps') = m
     \<and> current_config ((callee ps')\<lparr>mem := m'\<rparr>) = var_DefaultConfig m'
     \<and> Start_iterations (Suc n) svc h sched (callee (call_Start m None)) = Some st_n
     \<and> config_ptr st_n = Some Addr_DefaultConfig
     \<and> mem st_n = m"
proof -
  let ?st = "Start_frame m None"
  have cc: "current_config ?st = var_DefaultConfig m"
    by (simp add: current_config_def Start_frame_def or_default_def)
  from Start_iteration_begins [of svc h sched ?st] obtain rest
    where it: "Start_iteration svc h sched ?st = Some ((polled ?st)\<lparr>trace := trace (polled ?st) @ rest\<rparr>)"
    by blast
  let ?st' = "(polled ?st)\<lparr>trace := trace (polled ?st) @ rest\<rparr>"
  let ?ps' = "(call_Start m None)\<lparr>callee := ?st'\<rparr>"
  have a: "program_iteration svc h sched (call_Start m None) = Some ?ps'"
    using it by (simp add: program_iteration_def call_Start_def)
  have b: "trace (callee ?ps') =
         [Log_Debug (Log (var_DefaultConfig m)) ''worker: Start Polling'',
          Call_ReceiveMessage (receive_params (var_DefaultConfig m))] @ rest"
    using cc by (simp add: polled_def Start_frame_def)
  have c: "config_ptr (callee ?ps') = Some Addr_DefaultConfig"
    by (simp add: polled_def Start_frame_def or_default_def)
  have d: "caller_config ?ps' = None"
    by (simp add: call_Start_def)
  have e: "mem (callee ?ps') = m"
    by (simp add: polled_def Start_frame_def)
  have f: "current_config ((callee ?ps')\<lparr>mem := m'\<rparr>) = var_DefaultConfig m'"
    by (simp add: current_config_def polled_def Start_frame_def or_default_def)
  from Start_iterations_total [of "Suc n" svc h sched ?st] obtain st_n
    where g: "Start_iterations (Suc n) svc h sched ?st = Some st_n" by blast
  from Start_iterations_keep [OF g] have k: "config_ptr st_n = Some Addr_DefaultConfig" "mem st_n = m"
    by (simp_all add: Start_frame_def or_default_def)
  have g': "Start_iterations (Suc n) svc h sched (callee (call_Start m None)) = Some st_n"
    using g by (simp add: call_Start_def)
  show ?thesis
    by (intro exI [of _ ?ps'] exI [of _ rest] exI [of _ st_n] conjI) (rule a b c d e f g' k)+
qed

theorem Start_nil_config_witness:
  "\<exists>ps'. program_iteration ex_svc_ok ex_handler_ok ex_sched (call_Start ex_mem None) = Some ps'
      \<and> config_ptr (callee ps') = Some Addr_DefaultConfig
      \<and> caller_config ps' = None
      \<and> mem (callee ps') = ex_mem"
  using Start_nil_config_uses_DefaultConfig [of ex_svc_ok ex_handler_ok ex_sched ex_mem ex_mem 0]
  by blast

text \<open>
  The claim C8 as stated, that the substitution changes the pointer the caller sees,
  fails: after the first iteration of a call with a nil argument, the parameter of
  \<^verbatim>\<open>Start\<close> holds the address of \<^verbatim>\<open>DefaultConfig\<close> while the caller's variable
  is nil as before.
\<close>

theorem Start_nil_config_caller_pointer_counterexample:
  "program_iteration ex_svc_ok ex_handler_ok ex_sched (call_Start ex_mem None) =
     Some \<lparr>caller_config = None,
           callee = \<lparr>config_ptr = Some Addr_DefaultConfig, mem = ex_mem, receives = 1,
                     trace = [Log_Debug Ptr_logger ''worker: Start Polling'',
                              Call_ReceiveMessage
                                \<lparr>rQueueUrl = Some [], MaxNumberOfMessages = Some 10,
                                  MessageAttributeNames = [Some ''All''],
                                  WaitTimeSeconds = Some 20\<rparr>]\<rparr>\<rparr>
   \<and> caller_config (call_Start ex_mem None) = None"
  by (simp add: program_iteration_def call_Start_def Start_frame_def Start_iteration_def
      Let_def or_default_def ex_mem_def DefaultConfig_def receive_params_def aws_String_def
      aws_Int64_def ex_svc_ok_def)

end
